theory Spec2Isabelle
  imports Complex_Main "HOL-Library.Word"
begin

section \<open>Data model\<close>

text \<open>
  The embedding covers \<^verbatim>\<open>trunk/gaggia/ranger.cpp\<close> (the ultrasonic ranger and its
  worker thread) and the class declared in \<^verbatim>\<open>gaggia/pid.h\<close>.

  A \<^verbatim>\<open>double\<close> is modelled as a \<^typ>\<open>real\<close>: comparisons and the arithmetic of the
  source are exact here, rounding is not modelled. The counter \<^verbatim>\<open>m_count\<close> is an
  \<^verbatim>\<open>unsigned\<close>, 32 bits wide on the target, and is a \<^typ>\<open>32 word\<close>: \<^verbatim>\<open>m_count++\<close> wraps.
\<close>

text \<open>
  The fields of \<^verbatim>\<open>Ranger\<close> that the member functions read and write. The pins
  \<^verbatim>\<open>m_trigger\<close> and \<^verbatim>\<open>m_echo\<close> are part of the hardware (see \<open>world\<close> below); the mutex
  and the thread handle carry no data.
\<close>

record Ranger =
  m_range :: real
  m_count :: "32 word"
  m_run :: bool
  m_timeLastRun :: real

text \<open>The calls that reach the hardware and the timer, as the source writes them.\<close>

datatype hw_call =
  Delayms real
  | UsPulse bool nat
  | Poll nat

text \<open>
  The world outside the program: the clock, the edges that will arrive on the echo line
  (their times, in order), and the calls made so far, each with the time it was made at
  (oldest first). Time passes inside \<open>delayms\<close>, \<open>usPulse\<close> and \<open>poll\<close> only: the
  program's own statements take no time.
\<close>

record world =
  now :: real
  edges :: "real list"
  calls :: "(real \<times> hw_call) list"

section \<open>The primitives the ranger consumes\<close>

text \<open>
  Modelled from the spec: \<^verbatim>\<open>getClock()\<close> of \<^verbatim>\<open>timing.h\<close>, which is not among the
  sources. The spec has a monotonic clock read in fractional seconds.
\<close>

definition getClock :: "world \<Rightarrow> real" where
  "getClock w = now w"

text \<open>
  Modelled from the spec: \<^verbatim>\<open>delayms()\<close> of \<^verbatim>\<open>timing.h\<close>, which is not among the
  sources. The spec has a millisecond sleep primitive: the caller is blocked for the
  time it asks for.
\<close>

definition delayms :: "real \<Rightarrow> world \<Rightarrow> world" where
  "delayms ms w = w\<lparr>now := now w + ms / 1000, calls := calls w @ [(now w, Delayms ms)]\<rparr>"

text \<open>
  Modelled from the spec: \<^verbatim>\<open>GPIOPin::usPulse()\<close>, which is not among the sources. The
  spec has an output pin that emits a pulse of a fixed width in microseconds.
\<close>

definition usPulse :: "bool \<Rightarrow> nat \<Rightarrow> world \<Rightarrow> world" where
  "usPulse state us w =
     w\<lparr>now := now w + real us / 1000000, calls := calls w @ [(now w, UsPulse state us)]\<rparr>"

text \<open>
  Modelled from the spec: \<^verbatim>\<open>GPIOPin::poll()\<close>, which is not among the sources. The spec
  has a blocking call that returns true iff an edge occurred before the timeout (in
  milliseconds). An edge that is already pending is reported at once; a call that
  times out has blocked for the whole timeout.
\<close>

definition poll :: "nat \<Rightarrow> world \<Rightarrow> bool \<times> world" where
  "poll timeout w =
     (case edges w of
        [] \<Rightarrow>
          (False, w\<lparr>now := now w + real timeout / 1000,
                     calls := calls w @ [(now w, Poll timeout)]\<rparr>)
      | e # es \<Rightarrow>
          if e < now w + real timeout / 1000
          then (True, w\<lparr>now := max (now w) e, edges := es,
                         calls := calls w @ [(now w, Poll timeout)]\<rparr>)
          else (False, w\<lparr>now := now w + real timeout / 1000,
                          calls := calls w @ [(now w, Poll timeout)]\<rparr>))"

section \<open>The ranger\<close>

text \<open>
  The constructor: range 0, count 0, running, and the current time as the time of the
  last run. (Configuring the pins makes no call that the model records; starting the
  thread is the start of \<open>worker\<close> below.)
\<close>

definition Ranger_init :: "world \<Rightarrow> Ranger" where
  "Ranger_init w = \<lparr>m_range = 0, m_count = 0, m_run = True, m_timeLastRun = getClock w\<rparr>"

definition getRange :: "Ranger \<Rightarrow> real" where
  "getRange r = m_range r"

definition getCount :: "Ranger \<Rightarrow> 32 word" where
  "getCount r = m_count r"

definition ready :: "Ranger \<Rightarrow> bool" where
  "ready r = (m_count r > 0)"

subsection \<open>measureRange\<close>

text \<open>
  The first half of \<^verbatim>\<open>measureRange()\<close>, up to and including the trigger pulse: the
  interval since the last run, the delay when it is short, the new time of the last
  run, the 10 microsecond pulse.
\<close>

definition sendTrigger :: "Ranger \<times> world \<Rightarrow> Ranger \<times> world" where
  "sendTrigger rw =
     (case rw of (r, w) \<Rightarrow>
        let minimumInterval = 0.2;
            interval = getClock w - m_timeLastRun r;
            w1 = (if interval < minimumInterval
                  then delayms (1000 * (minimumInterval - interval)) w
                  else w);
            r1 = r\<lparr>m_timeLastRun := getClock w1\<rparr>;
            w2 = usPulse True 10 w1
        in (r1, w2))"

text \<open>
  The whole of \<^verbatim>\<open>measureRange()\<close>: after the trigger, wait for the rising and then the
  falling edge, 60 ms each; the distance is the pulse width times the speed of sound,
  halved; zero when no response came.
\<close>

definition measureRange :: "Ranger \<times> world \<Rightarrow> real \<times> Ranger \<times> world" where
  "measureRange rw =
     (let timeout = 60;
          (r1, w2) = sendTrigger rw;
          (rising, w3) = poll timeout w2;
          (elapsed, response, w5) =
            (if rising then
               (let rise = getClock w3;
                    (falling, w4) = poll timeout w3
                in if falling then
                     (let fall = getClock w4 in (fall - rise, True, w4))
                   else (0, False, w4))
             else (0, False, w3));
          speedOfSound = 340.27;
          distance = elapsed * speedOfSound / 2
      in (if response then distance else 0, r1, w5))"

subsection \<open>The worker thread\<close>

text \<open>
  The variables that \<^verbatim>\<open>worker()\<close> declares before its loop. \<open>range_outer\<close> is the
  \<^verbatim>\<open>range\<close> of the function's scope; the loop body declares a second \<^verbatim>\<open>range\<close>
  (\<open>range_inner\<close> below), which hides it from there to the end of the body.
\<close>

record locals =
  range_outer :: real
  oldRange :: real
  firstTime :: bool

definition worker_locals :: locals where
  "worker_locals = \<lparr>range_outer = 0, oldRange = 0, firstTime = True\<rparr>"

text \<open>
  The loop body up to the lock: \<^verbatim>\<open>oldRange = range\<close> reads the outer variable (the inner
  one is not yet declared), then a measurement, the outlier test, and a second
  measurement into the inner variable when the test holds.
\<close>

definition acquire :: "locals \<times> Ranger \<times> world \<Rightarrow> real \<times> locals \<times> Ranger \<times> world" where
  "acquire c =
     (case c of (l, r, w) \<Rightarrow>
        let l1 = l\<lparr>oldRange := range_outer l\<rparr>;
            (range_inner, r1, w1) = measureRange (r, w);
            outlier =
              ((\<not> firstTime l1 \<and> \<bar>range_inner - oldRange l1\<bar> > 0.01) \<or>
               range_inner < 0.001)
        in if outlier
           then (let (range_inner, r2, w2) = measureRange (r1, w1) in (range_inner, l1, r2, w2))
           else (range_inner, l1, r1, w1))"

text \<open>
  The block under the mutex: the filter is initialised the first time, then the filtered
  value is stored and the counter incremented.
\<close>

definition commit :: "real \<Rightarrow> locals \<times> Ranger \<Rightarrow> locals \<times> Ranger" where
  "commit range_inner lr =
     (case lr of (l, r) \<Rightarrow>
        let (l1, r1) =
              (if firstTime l
               then (l\<lparr>firstTime := False\<rparr>, r\<lparr>m_range := range_inner\<rparr>)
               else (l, r));
            k = 0.5;
            r2 = r1\<lparr>m_range := m_range r1 + k * (range_inner - m_range r1)\<rparr>;
            r3 = r2\<lparr>m_count := m_count r2 + 1\<rparr>
        in (l1, r3))"

text \<open>One pass through the body of \<^verbatim>\<open>while (m_run)\<close>.\<close>

definition iteration :: "locals \<times> Ranger \<times> world \<Rightarrow> locals \<times> Ranger \<times> world" where
  "iteration c =
     (let (range_inner, l1, r1, w1) = acquire c;
          (l2, r2) = commit range_inner (l1, r1)
      in (l2, r2, w1))"

text \<open>
  The loop. It has no exit of its own: it runs until another thread (the destructor)
  clears \<^verbatim>\<open>m_run\<close>. \<open>worker_loop n c\<close> is the state after the first \<open>n\<close> tests of
  \<^verbatim>\<open>m_run\<close>, the body having run after each test that found it set.
\<close>

fun worker_loop :: "nat \<Rightarrow> locals \<times> Ranger \<times> world \<Rightarrow> locals \<times> Ranger \<times> world" where
  "worker_loop 0 c = c"
| "worker_loop (Suc n) c =
     (if m_run (fst (snd c)) then worker_loop n (iteration c) else c)"

text \<open>The thread function: its locals, then the loop, on the object as constructed.\<close>

definition worker :: "nat \<Rightarrow> Ranger \<times> world \<Rightarrow> locals \<times> Ranger \<times> world" where
  "worker n rw = (case rw of (r, w) \<Rightarrow> worker_loop n (worker_locals, r, w))"

text \<open>The destructor's write (the join has no effect on the data).\<close>

definition Ranger_stop :: "Ranger \<Rightarrow> Ranger" where
  "Ranger_stop r = r\<lparr>m_run := False\<rparr>"

subsection \<open>initialise\<close>

text \<open>
  \<^verbatim>\<open>initialise()\<close> runs on the caller's thread while the worker runs on its own. The
  worker's writes are atomic for the caller (both sides hold the mutex), so the caller
  sees the object at each \<^verbatim>\<open>ready()\<close> as the worker has left it: \<open>env n\<close> is what the
  worker did to the object between the caller's read number \<open>n - 1\<close> (or the call, for
  \<open>n = 0\<close>) and its read number \<open>n\<close>. The loop variable is \<open>i\<close>; \<open>sleeps\<close> collects the
  arguments of \<^verbatim>\<open>delayms\<close>. The test \<^verbatim>\<open>(i<10) && !ready()\<close> does not call \<^verbatim>\<open>ready()\<close> when
  \<open>i\<close> has reached 10.
\<close>

function initialise_loop ::
  "(nat \<Rightarrow> Ranger \<Rightarrow> Ranger) \<Rightarrow> nat \<Rightarrow> nat \<Rightarrow> nat list \<Rightarrow> Ranger \<Rightarrow> nat \<times> nat list \<times> Ranger" where
  "initialise_loop env i n sleeps r =
     (if i < 10 then
        (let r1 = env n r in
         if \<not> ready r1
         then initialise_loop env (i + 1) (n + 1) (sleeps @ [50]) r1
         else (n + 1, sleeps, r1))
      else (n, sleeps, r))"
  by pat_completeness auto
termination
  by (relation "measure (\<lambda>(env, i, n, sleeps, r). 10 - i)") auto

definition initialise :: "(nat \<Rightarrow> Ranger \<Rightarrow> Ranger) \<Rightarrow> Ranger \<Rightarrow> bool \<times> nat list \<times> Ranger" where
  "initialise env r =
     (let (n, sleeps, r1) = initialise_loop env 0 0 [] r;
          r2 = env n r1
      in (ready r2, sleeps, r2))"

section \<open>The PID controller\<close>

text \<open>The data members that \<^verbatim>\<open>pid.h\<close> declares.\<close>

record PIDControl =
  m_dState :: real
  m_iState :: real
  m_iMax :: real
  m_iMin :: real
  m_iGain :: real
  m_pGain :: real
  m_dGain :: real

text \<open>
  Modelled from the spec: the body of \<^verbatim>\<open>PIDControl::update\<close>, which \<^verbatim>\<open>pid.h\<close> only
  declares. The spec has: the proportional term is the gain times the error; the error
  scaled by the integral gain is accumulated into the integrator state, which is then
  clamped to the limits; the derivative term is minus the gain times the change of
  position since the last call; the position is remembered; the output is the sum of
  the three terms.
\<close>

definition update :: "real \<Rightarrow> real \<Rightarrow> PIDControl \<Rightarrow> real \<times> PIDControl" where
  "update error position s =
     (let pTerm = m_pGain s * error;
          iState = m_iState s + m_iGain s * error;
          iState = (if iState > m_iMax s then m_iMax s
                    else if iState < m_iMin s then m_iMin s
                    else iState);
          iTerm = iState;
          dTerm = - m_dGain s * (position - m_dState s)
      in (pTerm + iTerm + dTerm, s\<lparr>m_iState := iState, m_dState := position\<rparr>))"

section \<open>Observations and example inputs\<close>

text \<open>The times of the trigger pulses in a list of calls, oldest first.\<close>

fun pulse_times :: "(real \<times> hw_call) list \<Rightarrow> real list" where
  "pulse_times [] = []"
| "pulse_times ((t, UsPulse state us) # cs) = t # pulse_times cs"
| "pulse_times ((t, c) # cs) = pulse_times cs"

text \<open>The number of measurements started so far: each starts with one trigger pulse.\<close>

definition triggers :: "world \<Rightarrow> nat" where
  "triggers w = length (pulse_times (calls w))"

text \<open>A world in which no echo ever comes.\<close>

definition quiet_world :: world where
  "quiet_world = \<lparr>now = 0, edges = [], calls = []\<rparr>"

text \<open>
  A world in which three measurements each get an echo pulse 10 ms wide, 1 ms after
  the trigger: the triggers are at 0.2 s, 0.4 s and 0.6 s.
\<close>

definition echo_world :: world where
  "echo_world = \<lparr>now = 0, edges = [0.201, 0.211, 0.401, 0.411, 0.601, 0.611], calls = []\<rparr>"

text \<open>A list of times in which each is at least 0.2 s after the one before.\<close>

fun spaced :: "real list \<Rightarrow> bool" where
  "spaced [] = True"
| "spaced [t] = True"
| "spaced (t # u # ts) = (t + 0.2 \<le> u \<and> spaced (u # ts))"


text \<open>
  The trigger invariant: the pulses so far are 0.2 s apart, and none is later than the
  recorded time of the last run.
\<close>

definition trigger_inv :: "Ranger \<times> world \<Rightarrow> bool" where
  "trigger_inv rw =
     (case rw of (r, w) \<Rightarrow>
        spaced (pulse_times (calls w)) \<and>
        list_all (\<lambda>p. p \<le> m_timeLastRun r) (pulse_times (calls w)))"


text \<open>
  For \<open>initialise\<close>: the object after the worker's steps \<open>env 0\<close>, ..., \<open>env (n - 1)\<close>, and
  the object that the caller's read number \<open>n\<close> sees.
\<close>

primrec progress :: "(nat \<Rightarrow> Ranger \<Rightarrow> Ranger) \<Rightarrow> nat \<Rightarrow> Ranger \<Rightarrow> Ranger" where
  "progress env 0 r = r"
| "progress env (Suc n) r = env n (progress env n r)"

definition snapshot :: "(nat \<Rightarrow> Ranger \<Rightarrow> Ranger) \<Rightarrow> nat \<Rightarrow> Ranger \<Rightarrow> Ranger" where
  "snapshot env n r = progress env (Suc n) r"

text \<open>
  A worker that completes its first iteration (in the quiet world) just before the
  caller's read number 3 and does nothing to the object otherwise.
\<close>

definition first_result :: "nat \<Rightarrow> Ranger \<Rightarrow> Ranger" where
  "first_result n r =
     (if n = 3 then fst (snd (iteration (worker_locals, r, quiet_world))) else r)"

text \<open>
  A controller with the integrator limits -10 and 10 and the integral gain 5, the
  other gains 1, last position 2.
\<close>

definition pid_example :: PIDControl where
  "pid_example =
     \<lparr>m_dState = 2, m_iState = 0, m_iMax = 10, m_iMin = -10, m_iGain = 5, m_pGain = 1,
      m_dGain = 1\<rparr>"

section \<open>Facts about the primitives and the trigger\<close>

lemmas prim_defs = getClock_def delayms_def usPulse_def poll_def

declare initialise_loop.simps [simp del]

lemma pulse_times_append: "pulse_times (xs @ ys) = pulse_times xs @ pulse_times ys"
  by (induction xs rule: pulse_times.induct) simp_all

lemma spaced_snoc: "spaced ts \<Longrightarrow> \<forall>p\<in>set ts. p + 0.2 \<le> t \<Longrightarrow> spaced (ts @ [t])"
  by (induction ts rule: spaced.induct) auto

lemma sendTrigger_time:
  "m_timeLastRun (fst (sendTrigger (r, w))) = max (now w) (m_timeLastRun r + 0.2)"
  by (simp add: sendTrigger_def Let_def getClock_def delayms_def max_def field_simps)

lemma sendTrigger_fields:
  "m_range (fst (sendTrigger (r, w))) = m_range r"
  "m_count (fst (sendTrigger (r, w))) = m_count r"
  "m_run (fst (sendTrigger (r, w))) = m_run r"
  by (simp_all add: sendTrigger_def Let_def)

lemma sendTrigger_calls:
  "calls (snd (sendTrigger (r, w))) =
     calls w @
     (if getClock w - m_timeLastRun r < 0.2
      then [(getClock w, Delayms (1000 * (0.2 - (getClock w - m_timeLastRun r))))]
      else []) @
     [(m_timeLastRun (fst (sendTrigger (r, w))), UsPulse True 10)]"
  by (simp add: sendTrigger_def Let_def getClock_def delayms_def usPulse_def)

lemma measureRange_Ranger: "fst (snd (measureRange (r, w))) = fst (sendTrigger (r, w))"
  by (simp add: measureRange_def Let_def split: prod.splits)

lemma measureRange_calls:
  "\<exists>cs. calls (snd (snd (measureRange (r, w)))) = calls (snd (sendTrigger (r, w))) @ cs \<and>
        pulse_times cs = []"
  by (auto simp add: measureRange_def Let_def poll_def split: prod.splits list.splits if_splits)

lemma measureRange_pulse_times:
  "pulse_times (calls (snd (snd (measureRange (r, w))))) =
     pulse_times (calls w) @ [m_timeLastRun (fst (snd (measureRange (r, w))))]"
proof -
  obtain cs where cs:
    "calls (snd (snd (measureRange (r, w)))) = calls (snd (sendTrigger (r, w))) @ cs"
    "pulse_times cs = []"
    using measureRange_calls by blast
  show ?thesis
    by (simp add: cs pulse_times_append sendTrigger_calls measureRange_Ranger)
qed

section \<open>Facts about the worker\<close>

lemma measureRange_fields:
  "m_range (fst (snd (measureRange rw))) = m_range (fst rw)"
  "m_count (fst (snd (measureRange rw))) = m_count (fst rw)"
  "m_run (fst (snd (measureRange rw))) = m_run (fst rw)"
  by (cases rw; simp add: measureRange_Ranger sendTrigger_fields)+

lemma measureRange_triggers: "triggers (snd (snd (measureRange rw))) = triggers (snd rw) + 1"
  by (cases rw) (simp add: triggers_def measureRange_pulse_times)

lemma measureRange_time:
  "m_timeLastRun (fst rw) + 0.2 \<le> m_timeLastRun (fst (snd (measureRange rw)))"
  by (cases rw) (simp add: measureRange_Ranger sendTrigger_time)

lemma acquire_cases:
  "acquire (l, r, w) =
     (let x = fst (measureRange (r, w)); rw1 = snd (measureRange (r, w)) in
      if (\<not> firstTime l \<and> \<bar>x - range_outer l\<bar> > 0.01) \<or> x < 0.001
      then (fst (measureRange rw1), l\<lparr>oldRange := range_outer l\<rparr>, snd (measureRange rw1))
      else (x, l\<lparr>oldRange := range_outer l\<rparr>, rw1))"
  by (simp add: acquire_def Let_def split: prod.splits)

lemma commit_Ranger:
  "snd (commit x (l, r)) =
     r\<lparr>m_range := (if firstTime l then x else m_range r + 0.5 * (x - m_range r)),
       m_count := m_count r + 1\<rparr>"
  by (simp add: commit_def Let_def)

lemma commit_locals: "fst (commit x (l, r)) = l\<lparr>firstTime := False\<rparr>"
  by (simp add: commit_def Let_def)

lemma iteration_eq:
  "iteration (l, r, w) =
     (case acquire (l, r, w) of (x, l1, r1, w1) \<Rightarrow>
        (fst (commit x (l1, r1)), snd (commit x (l1, r1)), w1))"
  by (simp add: iteration_def Let_def split: prod.splits)

lemma acquire_fields:
  "m_range (fst (snd (snd (acquire (l, r, w))))) = m_range r"
  "m_count (fst (snd (snd (acquire (l, r, w))))) = m_count r"
  "m_run (fst (snd (snd (acquire (l, r, w))))) = m_run r"
  "fst (snd (acquire (l, r, w))) = l\<lparr>oldRange := range_outer l\<rparr>"
  by (simp_all add: acquire_cases Let_def measureRange_fields split: prod.splits)

lemma iteration_fields:
  "m_count (fst (snd (iteration (l, r, w)))) = m_count r + 1"
  "m_run (fst (snd (iteration (l, r, w)))) = m_run r"
  "range_outer (fst (iteration (l, r, w))) = range_outer l"
  "firstTime (fst (iteration (l, r, w))) = False"
  using acquire_fields [of l r w]
  by (auto simp add: iteration_eq commit_Ranger commit_locals split: prod.splits)

lemma iteration_triggers:
  "triggers (snd (snd (iteration (l, r, w)))) =
     triggers w +
     (if (\<not> firstTime l \<and> \<bar>fst (measureRange (r, w)) - range_outer l\<bar> > 0.01) \<or>
         fst (measureRange (r, w)) < 0.001
      then 2 else 1)"
proof -
  obtain x r1 w1 where m1: "measureRange (r, w) = (x, r1, w1)"
    by (cases "measureRange (r, w)")
  obtain y r2 w2 where m2: "measureRange (r1, w1) = (y, r2, w2)"
    by (cases "measureRange (r1, w1)")
  have f: "triggers w1 = triggers w + 1" "triggers w2 = triggers w1 + 1"
    using measureRange_triggers [of "(r, w)"] measureRange_triggers [of "(r1, w1)"]
    by (simp_all add: m1 m2)
  show ?thesis
    by (simp add: iteration_def acquire_def commit_def Let_def m1 m2 f)
qed

lemma worker_loop_fields:
  "m_run (fst (snd c)) \<Longrightarrow>
     m_count (fst (snd (worker_loop n c))) = m_count (fst (snd c)) + of_nat n \<and>
     m_run (fst (snd (worker_loop n c))) \<and>
     range_outer (fst (worker_loop n c)) = range_outer (fst c)"
proof (induction n arbitrary: c)
  case 0
  then show ?case by simp
next
  case (Suc n)
  obtain l r w where c: "c = (l, r, w)" by (cases c)
  have "m_run (fst (snd (iteration c)))"
    using Suc.prems by (simp add: c iteration_fields)
  from Suc.IH [OF this] Suc.prems show ?case
    by (simp add: c iteration_fields)
qed

lemma worker_fields:
  "m_run r \<Longrightarrow>
     m_count (fst (snd (worker n (r, w)))) = m_count r + of_nat n \<and>
     m_run (fst (snd (worker n (r, w)))) \<and>
     range_outer (fst (worker n (r, w))) = 0"
  using worker_loop_fields [of "(worker_locals, r, w)" n]
  by (simp add: worker_def worker_locals_def)

lemma worker_firstTime:
  "m_run r \<Longrightarrow> firstTime (fst (worker_loop n (l, r, w))) = (firstTime l \<and> n = 0)"
proof (induction n arbitrary: l r w)
  case 0
  then show ?case by simp
next
  case (Suc n)
  obtain l1 r1 w1 where i: "iteration (l, r, w) = (l1, r1, w1)"
    by (cases "iteration (l, r, w)")
  have "m_run r1" "\<not> firstTime l1"
    using iteration_fields(2,4) [of l r w] Suc.prems by (simp_all add: i)
  with Suc.IH [of r1 l1 w1] Suc.prems show ?case
    by (simp add: i)
qed

lemma worker_loop_triggers:
  "m_run (fst (snd c)) \<Longrightarrow> triggers (snd (snd c)) + n \<le> triggers (snd (snd (worker_loop n c)))"
proof (induction n arbitrary: c)
  case 0
  then show ?case by simp
next
  case (Suc n)
  obtain l r w where c: "c = (l, r, w)" by (cases c)
  have run: "m_run (fst (snd (iteration c)))"
    using Suc.prems by (simp add: c iteration_fields)
  have "triggers w + 1 \<le> triggers (snd (snd (iteration c)))"
    by (simp add: c iteration_triggers)
  with Suc.IH [OF run] Suc.prems show ?case
    by (simp add: c)
qed

lemma worker_triggers: "n \<le> triggers (snd (snd (worker n (Ranger_init w0, w0))))"
  using worker_loop_triggers [of "(worker_locals, Ranger_init w0, w0)" n]
  by (simp add: worker_def Ranger_init_def)

lemma worker_count: "m_count (fst (snd (worker n (Ranger_init w0, w0)))) = of_nat n"
  using worker_fields [of "Ranger_init w0" n w0] by (simp add: Ranger_init_def)

lemma word32_less_Suc:
  fixes x :: "32 word"
  assumes "x \<noteq> 0xFFFFFFFF"
  shows "x < x + 1"
proof -
  have "unat x < 2 ^ 32"
    using unsigned_less [of x] by simp
  moreover have "unat x \<noteq> 4294967295"
    using assms by (simp add: word_unat_eq_iff)
  ultimately have "unat x + 1 < 2 ^ 32"
    by simp
  then show ?thesis
    by (simp add: word_less_nat_alt unat_word_ariths)
qed

subsection \<open>The filter\<close>




subsection \<open>The trigger invariant\<close>

lemma measureRange_inv:
  assumes "trigger_inv rw"
  shows "trigger_inv (snd (measureRange rw))"
proof -
  obtain r w where rw: "rw = (r, w)" by (cases rw)
  obtain d r' w' where m: "measureRange (r, w) = (d, r', w')"
    by (cases "measureRange (r, w)")
  have t: "m_timeLastRun r + 0.2 \<le> m_timeLastRun r'"
    using measureRange_time [of "(r, w)"] by (simp add: m)
  have p: "pulse_times (calls w') = pulse_times (calls w) @ [m_timeLastRun r']"
    using measureRange_pulse_times [of r w] by (simp add: m)
  have old: "spaced (pulse_times (calls w))" "\<forall>p\<in>set (pulse_times (calls w)). p \<le> m_timeLastRun r"
    using assms by (simp_all add: trigger_inv_def rw list_all_iff)
  have gap: "\<forall>p\<in>set (pulse_times (calls w)). p + 0.2 \<le> m_timeLastRun r'"
    using old(2) t by fastforce
  have "spaced (pulse_times (calls w'))"
    unfolding p by (rule spaced_snoc [OF old(1) gap])
  moreover have "\<forall>p\<in>set (pulse_times (calls w')). p \<le> m_timeLastRun r'"
    using gap by (fastforce simp: p)
  ultimately show ?thesis
    by (simp add: rw m trigger_inv_def list_all_iff)
qed

lemma iteration_inv:
  assumes "trigger_inv (snd c)"
  shows "trigger_inv (snd (iteration c))"
proof -
  obtain l r w where c: "c = (l, r, w)" by (cases c)
  obtain x r1 w1 where m1: "measureRange (r, w) = (x, r1, w1)"
    by (cases "measureRange (r, w)")
  obtain y r2 w2 where m2: "measureRange (r1, w1) = (y, r2, w2)"
    by (cases "measureRange (r1, w1)")
  have i1: "trigger_inv (r1, w1)"
    using measureRange_inv [of "(r, w)"] assms by (simp add: c m1)
  have i2: "trigger_inv (r2, w2)"
    using measureRange_inv [OF i1] by (simp add: m2)
  show ?thesis
    using i1 i2
    by (simp add: c iteration_def acquire_def commit_def Let_def m1 m2 trigger_inv_def)
qed

lemma worker_loop_inv: "trigger_inv (snd c) \<Longrightarrow> trigger_inv (snd (worker_loop n c))"
  by (induction n arbitrary: c) (simp_all add: iteration_inv)

lemma worker_spaced:
  assumes "pulse_times (calls w0) = []"
  shows "spaced (pulse_times (calls (snd (snd (worker n (Ranger_init w0, w0))))))"
proof -
  have "trigger_inv (Ranger_init w0, w0)"
    using assms by (simp add: trigger_inv_def)
  then have "trigger_inv (snd (worker n (Ranger_init w0, w0)))"
    using worker_loop_inv [of "(worker_locals, Ranger_init w0, w0)" n] by (simp add: worker_def)
  then show ?thesis
    by (simp add: trigger_inv_def split: prod.splits)
qed

subsection \<open>The loop of initialise\<close>

lemma initialise_loop_spec:
  assumes "n = i" and "i \<le> 10" and "r = progress env i r0" and "sleeps = replicate i 50"
    and "\<forall>j<i. \<not> ready (snapshot env j r0)"
  shows "case initialise_loop env i n sleeps r of (n', sleeps', r') \<Rightarrow>
           length sleeps' \<le> 10 \<and> sleeps' = replicate (length sleeps') 50 \<and>
           (\<forall>j<length sleeps'. \<not> ready (snapshot env j r0)) \<and>
           (length sleeps' < 10 \<longrightarrow> ready (snapshot env (length sleeps') r0)) \<and>
           n' = (if length sleeps' < 10 then length sleeps' + 1 else 10) \<and>
           r' = progress env n' r0"
  using assms
proof (induction env i n sleeps r rule: initialise_loop.induct)
  case (1 env i n sleeps r)
  show ?case
  proof (cases "i < 10")
    case False
    with "1.prems" have i: "i = 10" by simp
    show ?thesis
      using "1.prems" by (subst initialise_loop.simps) (simp add: i)
  next
    case True
    define r1 where "r1 = env n r"
    have r1: "r1 = snapshot env i r0"
      using "1.prems" by (simp add: r1_def snapshot_def)
    show ?thesis
    proof (cases "ready r1")
      case True
      show ?thesis
        using \<open>i < 10\<close> True "1.prems" r1
        by (subst initialise_loop.simps) (simp add: r1_def [symmetric] Let_def snapshot_def)
    next
      case False
      have all: "\<forall>j<i + 1. \<not> ready (snapshot env j r0)"
        using "1.prems"(5) False r1 by (auto simp: less_Suc_eq)
      have rep: "sleeps @ [50] = replicate (i + 1) 50"
        using "1.prems"(4) by (simp add: replicate_append_same)
      have pr: "r1 = progress env (i + 1) r0"
        using r1 by (simp add: snapshot_def)
      have IH: "case initialise_loop env (i + 1) (n + 1) (sleeps @ [50]) r1 of
                  (n', sleeps', r') \<Rightarrow>
           length sleeps' \<le> 10 \<and> sleeps' = replicate (length sleeps') 50 \<and>
           (\<forall>j<length sleeps'. \<not> ready (snapshot env j r0)) \<and>
           (length sleeps' < 10 \<longrightarrow> ready (snapshot env (length sleeps') r0)) \<and>
           n' = (if length sleeps' < 10 then length sleeps' + 1 else 10) \<and>
           r' = progress env n' r0"
        using "1.IH" [OF \<open>i < 10\<close> r1_def False _ _ pr rep all] "1.prems"(1) \<open>i < 10\<close>
        by simp
      show ?thesis
        using \<open>i < 10\<close> False IH
        by (subst initialise_loop.simps) (simp add: r1_def [symmetric] Let_def)
    qed
  qed
qed

lemma progress_id: "progress (\<lambda>n r. r) n r = r"
  by (induction n) simp_all

lemma first_result_count:
  "m_count (first_result n r) = (if n = 3 then m_count r + 1 else m_count r)"
  by (simp add: first_result_def iteration_fields)

lemma echo_world_pulses:
  "pulse_times (calls (snd (snd (worker 2 (Ranger_init echo_world, echo_world))))) =
     [0.2, 0.4, 0.6]"
  by (simp add: worker_def numeral_2_eq_2 iteration_def acquire_def commit_def measureRange_def
      sendTrigger_def prim_defs Let_def worker_locals_def Ranger_init_def echo_world_def)

section \<open>measureRange: the value returned\<close>

text \<open>
  C5. A call of \<open>measureRange\<close> returns 0 when the wait for the rising edge or the wait
  for the falling edge (60 ms each) times out; otherwise it returns the time between
  the two edges times 340.27, halved.
\<close>

theorem measureRange_value:
  "fst (measureRange (r, w)) =
     (let (r1, w2) = sendTrigger (r, w);
          (rising, w3) = poll 60 w2;
          (falling, w4) = poll 60 w3;
          rise = getClock w3;
          fall = getClock w4
      in if rising \<and> falling then (fall - rise) * 340.27 / 2 else 0)"
  by (simp add: measureRange_def Let_def split: prod.splits)

theorem measureRange_value_witness:
  "fst (measureRange (Ranger_init echo_world, echo_world)) = 1.70135 \<and>
   fst (measureRange (Ranger_init quiet_world, quiet_world)) = 0"
  using measureRange_value [of "Ranger_init echo_world" echo_world]
    measureRange_value [of "Ranger_init quiet_world" quiet_world]
  by (simp add: sendTrigger_def Ranger_init_def echo_world_def quiet_world_def prim_defs Let_def)

section \<open>measureRange: the minimum interval between triggers\<close>

text \<open>
  C6. A call of \<open>measureRange\<close> keeps 0.2 s between triggers. When less than 0.2 s
  has passed since the time of the last run, the call first sleeps for the remainder
  (\<open>1000 * (0.2 - interval)\<close> ms); it then records the time as the new time of the last
  run and emits one pulse, high for 10 microseconds, at that time, and no other pulse.
  The recorded time is at least 0.2 s after the previous one, and the trigger invariant
  is kept. So in every run of the worker on a new object, all trigger pulses are at
  least 0.2 s apart.
\<close>

theorem measureRange_minimum_interval:
  "(case measureRange (r, w) of (d, r', w') \<Rightarrow>
      (let interval = getClock w - m_timeLastRun r in
       \<exists>cs. calls w' =
              calls w @
              (if interval < 0.2
               then [(getClock w, Delayms (1000 * (0.2 - interval)))]
               else []) @
              (m_timeLastRun r', UsPulse True 10) # cs \<and>
            pulse_times cs = []) \<and>
      m_timeLastRun r + 0.2 \<le> m_timeLastRun r' \<and>
      (trigger_inv (r, w) \<longrightarrow> trigger_inv (r', w'))) \<and>
   (pulse_times (calls v) = [] \<longrightarrow>
      spaced (pulse_times (calls (snd (snd (worker n (Ranger_init v, v)))))))"
proof -
  obtain d r' w' where m: "measureRange (r, w) = (d, r', w')"
    by (cases "measureRange (r, w)")
  have r': "r' = fst (sendTrigger (r, w))"
    using measureRange_Ranger [of r w] by (simp add: m)
  obtain cs where cs: "calls w' = calls (snd (sendTrigger (r, w))) @ cs" "pulse_times cs = []"
    using measureRange_calls [of r w] by (auto simp: m)
  have t: "m_timeLastRun r + 0.2 \<le> m_timeLastRun r'"
    by (simp add: r' sendTrigger_time)
  have c: "calls w' =
             calls w @
             (if getClock w - m_timeLastRun r < 0.2
              then [(getClock w, Delayms (1000 * (0.2 - (getClock w - m_timeLastRun r))))]
              else []) @
             (m_timeLastRun r', UsPulse True 10) # cs"
    by (simp add: cs sendTrigger_calls r')
  have i: "trigger_inv (r', w')" if "trigger_inv (r, w)"
    using measureRange_inv [OF that] by (simp add: m)
  have g: "spaced (pulse_times (calls (snd (snd (worker n (Ranger_init v, v))))))"
    if "pulse_times (calls v) = []"
    using that by (rule worker_spaced)
  show ?thesis
    using t c cs(2) i g by (simp add: m Let_def)
qed

theorem measureRange_minimum_interval_witness:
  "pulse_times (calls echo_world) = [] \<and>
   pulse_times (calls (snd (snd (worker 2 (Ranger_init echo_world, echo_world))))) =
     [0.2, 0.4, 0.6] \<and>
   spaced (pulse_times (calls (snd (snd (worker 2 (Ranger_init echo_world, echo_world))))))"
proof -
  have h: "pulse_times (calls echo_world) = []"
    by (simp add: echo_world_def)
  show ?thesis
    using measureRange_minimum_interval [where v = echo_world and n = 2] h
    by (simp add: echo_world_pulses)
qed

section \<open>The worker: the outlier test\<close>

text \<open>
  What the loop does: the outer \<open>range\<close> is never assigned, so \<open>oldRange\<close> is 0 in
  every iteration, and from the second iteration on a first reading \<open>x\<close> is followed by
  a second measurement exactly when \<open>\<bar>x\<bar> > 0.01\<close> or \<open>x < 0.001\<close>.
\<close>

theorem worker_outlier_test:
  "let c = worker n (Ranger_init w0, w0); x = fst (measureRange (snd c)) in
     range_outer (fst c) = 0 \<and>
     triggers (snd (snd (iteration c))) =
     triggers (snd (snd c)) + (if (n \<noteq> 0 \<and> \<bar>x\<bar> > 0.01) \<or> x < 0.001 then 2 else 1)"
proof -
  obtain l r w where c: "worker n (Ranger_init w0, w0) = (l, r, w)"
    by (cases "worker n (Ranger_init w0, w0)")
  have run: "m_run (Ranger_init w0)" by (simp add: Ranger_init_def)
  have "range_outer l = 0"
    using worker_fields [OF run, of n w0] by (simp add: c)
  moreover have "firstTime l = (n = 0)"
    using worker_firstTime [OF run, of n worker_locals w0] c
    by (simp add: worker_def worker_locals_def)
  ultimately show ?thesis
    using iteration_triggers [of l r w] by (simp add: c Let_def)
qed

text \<open>
  C1. The outlier test does not compare a reading with the reading of the iteration
  before. In the world where every measurement reads 1.70135 m, the first iteration
  takes one measurement; the second iteration reads the same 1.70135 m, which differs
  from the reading before by 0 and is not below 0.001, and yet takes a second
  measurement (three triggers after two iterations).
\<close>

theorem worker_retries_equal_reading:
  "let c0 = (worker_locals, Ranger_init echo_world, echo_world);
       c1 = iteration c0;
       c2 = iteration c1
   in fst (measureRange (snd c0)) = 1.70135 \<and> triggers (snd (snd c1)) = 1 \<and>
      fst (measureRange (snd c1)) = 1.70135 \<and> triggers (snd (snd c2)) = 3"
  by (simp add: iteration_def acquire_def commit_def measureRange_def sendTrigger_def prim_defs
      Let_def worker_locals_def Ranger_init_def echo_world_def triggers_def)

section \<open>The worker: one retry\<close>

text \<open>
  C2. In an iteration whose first reading \<open>x\<close> passes the outlier test, exactly one
  more measurement is taken (the world afterwards is the world after the two calls, two
  triggers more than before), and its value \<open>y\<close> goes into the filter whatever it is;
  otherwise the first reading goes into the filter after one measurement. Either way
  the counter goes up by 1, and no iteration takes more than two measurements.
\<close>

theorem iteration_one_retry:
  "let x = fst (measureRange (r, w)); rw1 = snd (measureRange (r, w));
       y = fst (measureRange rw1); rw2 = snd (measureRange rw1);
       outlier = ((\<not> firstTime l \<and> \<bar>x - range_outer l\<bar> > 0.01) \<or> x < 0.001);
       filtered = (\<lambda>v. if firstTime l then v else m_range r + 0.5 * (v - m_range r))
   in case iteration (l, r, w) of (l', r', w') \<Rightarrow>
        (if outlier
         then w' = snd rw2 \<and> triggers w' = triggers w + 2 \<and> m_range r' = filtered y
         else w' = snd rw1 \<and> triggers w' = triggers w + 1 \<and> m_range r' = filtered x) \<and>
        m_count r' = m_count r + 1 \<and>
        triggers w' \<le> triggers w + 2"
proof -
  obtain x r1 w1 where m1: "measureRange (r, w) = (x, r1, w1)"
    by (cases "measureRange (r, w)")
  obtain y r2 w2 where m2: "measureRange (r1, w1) = (y, r2, w2)"
    by (cases "measureRange (r1, w1)")
  have f1: "m_range r1 = m_range r" "m_count r1 = m_count r" "triggers w1 = triggers w + 1"
    using measureRange_fields(1,2) [of "(r, w)"] measureRange_triggers [of "(r, w)"]
    by (simp_all add: m1)
  have f2: "m_range r2 = m_range r1" "m_count r2 = m_count r1" "triggers w2 = triggers w1 + 1"
    using measureRange_fields(1,2) [of "(r1, w1)"] measureRange_triggers [of "(r1, w1)"]
    by (simp_all add: m2)
  show ?thesis
    by (simp add: iteration_def acquire_def commit_def Let_def m1 m2 f1 f2)
qed

theorem iteration_one_retry_witness:
  "triggers (snd (snd (iteration (worker_locals, Ranger_init quiet_world, quiet_world)))) = 2 \<and>
   fst (measureRange (snd (measureRange (Ranger_init quiet_world, quiet_world)))) = 0 \<and>
   m_range (fst (snd (iteration (worker_locals, Ranger_init quiet_world, quiet_world)))) = 0"
proof -
  have h1: "fst (measureRange (Ranger_init quiet_world, quiet_world)) = 0"
    by (simp add: measureRange_def sendTrigger_def prim_defs Let_def Ranger_init_def
        quiet_world_def)
  have h2: "fst (measureRange (snd (measureRange (Ranger_init quiet_world, quiet_world)))) = 0"
    by (simp add: measureRange_def sendTrigger_def prim_defs Let_def Ranger_init_def
        quiet_world_def)
  have f: "triggers quiet_world = 0" "firstTime worker_locals"
    by (simp_all add: triggers_def quiet_world_def worker_locals_def)
  show ?thesis
    using iteration_one_retry [of "Ranger_init quiet_world" quiet_world worker_locals] h1 h2 f
    by (auto simp: Let_def split: prod.splits)
qed

section \<open>The worker: the filter\<close>




section \<open>The counter\<close>

text \<open>
  C7, as amended. The counter starts at 0; an iteration adds 1 to it modulo \<open>2 ^ 32\<close>,
  and so increases it unless it was \<open>2 ^ 32 - 1\<close>; after \<open>n < 2 ^ 32\<close> iterations on a
  new object it is \<open>n\<close>; \<open>measureRange\<close> and the destructor's write leave it as it is.
\<close>

theorem count_increments:
  "m_count (Ranger_init w0) = 0 \<and>
   m_count (fst (snd (iteration (l, r, w)))) = m_count r + 1 \<and>
   unat (m_count (fst (snd (iteration (l, r, w))))) = (unat (m_count r) + 1) mod 2 ^ 32 \<and>
   (m_count r \<noteq> 0xFFFFFFFF \<longrightarrow> m_count r < m_count (fst (snd (iteration (l, r, w))))) \<and>
   (n < 2 ^ 32 \<longrightarrow> unat (m_count (fst (snd (worker n (Ranger_init w0, w0))))) = n) \<and>
   m_count (fst (snd (measureRange (r, w)))) = m_count r \<and>
   m_count (Ranger_stop r) = m_count r"
proof (intro conjI impI)
  show "m_count (Ranger_init w0) = 0"
    by (simp add: Ranger_init_def)
  show "m_count (fst (snd (iteration (l, r, w)))) = m_count r + 1"
    by (rule iteration_fields(1))
  show "unat (m_count (fst (snd (iteration (l, r, w))))) = (unat (m_count r) + 1) mod 2 ^ 32"
    by (simp add: iteration_fields(1) unat_word_ariths)
  show "m_count r < m_count (fst (snd (iteration (l, r, w))))" if "m_count r \<noteq> 0xFFFFFFFF"
    using that by (simp add: iteration_fields(1) word32_less_Suc)
  show "unat (m_count (fst (snd (worker n (Ranger_init w0, w0))))) = n" if "n < 2 ^ 32"
    using that by (simp add: worker_count unat_of_nat)
  show "m_count (fst (snd (measureRange (r, w)))) = m_count r"
    by (simp add: measureRange_fields)
  show "m_count (Ranger_stop r) = m_count r"
    by (simp add: Ranger_stop_def)
qed

theorem count_increments_witness:
  "m_count (fst (snd (iteration (worker_locals, Ranger_init quiet_world, quiet_world)))) = 1 \<and>
   unat (m_count (fst (snd (worker 3 (Ranger_init quiet_world, quiet_world))))) = 3"
  using count_increments [of quiet_world worker_locals "Ranger_init quiet_world" quiet_world 3]
  by (simp add: Ranger_init_def)

text \<open>
  C7, as stated, fails: iteration number \<open>2 ^ 32\<close> takes the counter from
  \<open>2 ^ 32 - 1\<close> to 0.
\<close>

theorem count_wraps:
  "m_count (fst (snd (worker (2 ^ 32 - 1) (Ranger_init quiet_world, quiet_world)))) = 0xFFFFFFFF \<and>
   m_count (fst (snd (worker (2 ^ 32) (Ranger_init quiet_world, quiet_world)))) = 0 \<and>
   m_count (fst (snd (worker (2 ^ 32) (Ranger_init quiet_world, quiet_world)))) <
   m_count (fst (snd (worker (2 ^ 32 - 1) (Ranger_init quiet_world, quiet_world))))"
  by (simp add: worker_count)

section \<open>ready\<close>

text \<open>
  What \<open>ready\<close> computes: it is true iff the counter is above 0. It is false on a new
  object, and after \<open>n\<close> iterations it is true iff the counter, \<open>n\<close> modulo \<open>2 ^ 32\<close>,
  is not 0.
\<close>

theorem ready_after:
  "ready r = (m_count r > 0) \<and>
   \<not> ready (Ranger_init w0) \<and>
   ready (fst (snd (worker n (Ranger_init w0, w0)))) = (\<not> 2 ^ 32 dvd n) \<and>
   (0 < n \<and> n < 2 ^ 32 \<longrightarrow> ready (fst (snd (worker n (Ranger_init w0, w0)))))"
proof -
  have a: "ready (fst (snd (worker n (Ranger_init w0, w0)))) = (\<not> 2 ^ 32 dvd n)"
    by (simp add: ready_def worker_count word_neq_0_conv [symmetric] word_of_nat_eq_0_iff)
  have b: "\<not> 2 ^ 32 dvd n" if "0 < n" "n < 2 ^ 32"
    using that by (simp add: nat_dvd_not_less)
  show ?thesis
    using a b by (simp add: ready_def Ranger_init_def)
qed

theorem ready_after_witness:
  "\<not> ready (Ranger_init quiet_world) \<and>
   ready (fst (snd (worker 1 (Ranger_init quiet_world, quiet_world))))"
proof -
  have "0 < (1::nat) \<and> (1::nat) < 2 ^ 32" by simp
  with ready_after [of "Ranger_init quiet_world" quiet_world 1] show ?thesis by blast
qed

text \<open>
  C8. \<open>ready\<close> is to be true iff the counter is above 0, false until the first
  iteration completes and true from then on; the source's own comment has it return
  true if at least one range measurement has been taken. On a new object it is false
  and after the first iteration it is true, but after iteration number \<open>2 ^ 32\<close> the
  counter has wrapped to 0 and \<open>ready\<close> is false again, though at least \<open>2 ^ 32\<close>
  measurements have been taken.
\<close>

theorem ready_wraps:
  "\<not> ready (Ranger_init quiet_world) \<and>
   ready (fst (snd (worker 1 (Ranger_init quiet_world, quiet_world)))) \<and>
   2 ^ 32 \<le> triggers (snd (snd (worker (2 ^ 32) (Ranger_init quiet_world, quiet_world)))) \<and>
   getCount (fst (snd (worker (2 ^ 32) (Ranger_init quiet_world, quiet_world)))) = 0 \<and>
   \<not> ready (fst (snd (worker (2 ^ 32) (Ranger_init quiet_world, quiet_world))))"
proof -
  have a: "\<not> ready (Ranger_init quiet_world)"
    by (simp add: ready_def Ranger_init_def)
  have b: "ready (fst (snd (worker 1 (Ranger_init quiet_world, quiet_world))))"
    by (simp add: ready_def worker_count)
  have c: "2 ^ 32 \<le> triggers (snd (snd (worker (2 ^ 32) (Ranger_init quiet_world, quiet_world))))"
    by (rule worker_triggers)
  have d: "m_count (fst (snd (worker (2 ^ 32) (Ranger_init quiet_world, quiet_world)))) = 0"
    by (simp add: worker_count)
  show ?thesis
    using a b c d by (simp add: ready_def getCount_def)
qed

section \<open>initialise\<close>

text \<open>
  C9. \<open>initialise\<close> sleeps at most 10 times, 50 ms each time; every read before a
  sleep found the object not ready, and when it has slept fewer than 10 times the read
  after the last sleep found it ready. The object it ends with is the one that its last
  read saw, so it is changed by the worker only (with an idle worker it is unchanged),
  and the result is \<open>ready\<close> of that object: true iff its counter is above 0.
\<close>

theorem initialise_polls:
  "(case initialise env r of (res, sleeps, r') \<Rightarrow>
      length sleeps \<le> 10 \<and> sleeps = replicate (length sleeps) 50 \<and>
      (\<forall>j<length sleeps. \<not> ready (snapshot env j r)) \<and>
      (length sleeps < 10 \<longrightarrow> ready (snapshot env (length sleeps) r)) \<and>
      r' = snapshot env (if length sleeps < 10 then length sleeps + 1 else 10) r \<and>
      res = ready r' \<and> res = (m_count r' > 0)) \<and>
   snd (snd (initialise (\<lambda>n r. r) r)) = r"
proof -
  have spec: "case initialise_loop env 0 0 [] r of (n', sleeps', r') \<Rightarrow>
           length sleeps' \<le> 10 \<and> sleeps' = replicate (length sleeps') 50 \<and>
           (\<forall>j<length sleeps'. \<not> ready (snapshot env j r)) \<and>
           (length sleeps' < 10 \<longrightarrow> ready (snapshot env (length sleeps') r)) \<and>
           n' = (if length sleeps' < 10 then length sleeps' + 1 else 10) \<and>
           r' = progress env n' r" for env
    by (rule initialise_loop_spec) simp_all
  have a: "case initialise env r of (res, sleeps, r') \<Rightarrow>
      length sleeps \<le> 10 \<and> sleeps = replicate (length sleeps) 50 \<and>
      (\<forall>j<length sleeps. \<not> ready (snapshot env j r)) \<and>
      (length sleeps < 10 \<longrightarrow> ready (snapshot env (length sleeps) r)) \<and>
      r' = snapshot env (if length sleeps < 10 then length sleeps + 1 else 10) r \<and>
      res = ready r' \<and> res = (m_count r' > 0)"
    using spec [of env]
    by (auto simp: initialise_def Let_def snapshot_def ready_def split: prod.splits)
  have id: "progress (\<lambda>n r. r) n r = r" for n
    by (induction n) simp_all
  have b: "snd (snd (initialise (\<lambda>n r. r) r)) = r"
    using spec [of "\<lambda>n r. r"]
    by (auto simp: initialise_def Let_def id split: prod.splits)
  show ?thesis using a b by blast
qed

theorem initialise_polls_witness:
  "fst (initialise first_result (Ranger_init quiet_world)) \<and>
   fst (snd (initialise first_result (Ranger_init quiet_world))) = [50, 50, 50] \<and>
   getCount (snd (snd (initialise first_result (Ranger_init quiet_world)))) = 1"
proof -
  obtain res sleeps r' where i: "initialise first_result (Ranger_init quiet_world) = (res, sleeps, r')"
    by (cases "initialise first_result (Ranger_init quiet_world)")
  have c: "m_count (progress first_result n (Ranger_init quiet_world)) = (if n \<le> 3 then 0 else 1)" for n
    by (induction n) (auto simp: first_result_count Ranger_init_def)
  have rd: "ready (snapshot first_result j (Ranger_init quiet_world)) = (3 \<le> j)" for j
    using c [of "Suc j"] by (simp add: ready_def snapshot_def)
  from initialise_polls [of first_result "Ranger_init quiet_world"]
  have p: "length sleeps \<le> 10" "sleeps = replicate (length sleeps) 50"
    "\<forall>j<length sleeps. \<not> ready (snapshot first_result j (Ranger_init quiet_world))"
    "length sleeps < 10 \<longrightarrow> ready (snapshot first_result (length sleeps) (Ranger_init quiet_world))"
    "r' = snapshot first_result (if length sleeps < 10 then length sleeps + 1 else 10) (Ranger_init quiet_world)"
    "res = (m_count r' > 0)"
    unfolding i prod.case by blast+
  have "\<not> 3 < length sleeps"
    using p(3) rd [of 3] by auto
  moreover have "3 \<le> length sleeps"
    using p(4) rd [of "length sleeps"] calculation by auto
  ultimately have len: "length sleeps = 3" by simp
  have s: "sleeps = [50, 50, 50]"
    using p(2) unfolding len by (simp add: numeral_3_eq_3)
  have r': "m_count r' = 1"
    using p(5) c [of 5] by (simp add: len snapshot_def)
  show ?thesis
    using s r' p(6) by (simp add: i getCount_def)
qed

section \<open>The worker: a measurement that fails twice\<close>

text \<open>
  C10. When the measurement of an iteration and its retry both return 0, the iteration
  still commits: the counter goes up by 1 and the published value is 0 put through the
  filter (0 itself the first time). On the first iteration of a new object, the object
  is then ready and its range is exactly 0, though no echo was received.
\<close>

theorem double_failure_committed:
  assumes "fst (measureRange (r, w)) = 0"
    and "fst (measureRange (snd (measureRange (r, w)))) = 0"
  shows "case iteration (l, r, w) of (l', r', w') \<Rightarrow>
           w' = snd (snd (measureRange (snd (measureRange (r, w))))) \<and>
           triggers w' = triggers w + 2 \<and>
           m_count r' = m_count r + 1 \<and>
           m_range r' = (if firstTime l then 0 else m_range r + 0.5 * (0 - m_range r)) \<and>
           (firstTime l \<and> m_count r = 0 \<longrightarrow> ready r' \<and> getRange r' = 0)"
proof -
  obtain x r1 w1 where m1: "measureRange (r, w) = (x, r1, w1)"
    by (cases "measureRange (r, w)")
  obtain y r2 w2 where m2: "measureRange (r1, w1) = (y, r2, w2)"
    by (cases "measureRange (r1, w1)")
  have x: "x = 0" and y: "y = 0"
    using assms by (simp_all add: m1 m2)
  have f1: "m_range r1 = m_range r" "m_count r1 = m_count r" "triggers w1 = triggers w + 1"
    using measureRange_fields(1,2) [of "(r, w)"] measureRange_triggers [of "(r, w)"]
    by (simp_all add: m1)
  have f2: "m_range r2 = m_range r1" "m_count r2 = m_count r1" "triggers w2 = triggers w1 + 1"
    using measureRange_fields(1,2) [of "(r1, w1)"] measureRange_triggers [of "(r1, w1)"]
    by (simp_all add: m2)
  show ?thesis
    by (simp add: iteration_def acquire_def commit_def Let_def m1 m2 x y f1 f2 ready_def
        getRange_def)
qed

theorem double_failure_committed_witness:
  "fst (measureRange (Ranger_init quiet_world, quiet_world)) = 0 \<and>
   fst (measureRange (snd (measureRange (Ranger_init quiet_world, quiet_world)))) = 0 \<and>
   ready (fst (snd (iteration (worker_locals, Ranger_init quiet_world, quiet_world)))) \<and>
   getRange (fst (snd (iteration (worker_locals, Ranger_init quiet_world, quiet_world)))) = 0 \<and>
   triggers (snd (snd (iteration (worker_locals, Ranger_init quiet_world, quiet_world)))) = 2"
proof -
  have h1: "fst (measureRange (Ranger_init quiet_world, quiet_world)) = 0"
    by (simp add: measureRange_def sendTrigger_def prim_defs Let_def Ranger_init_def
        quiet_world_def)
  have h2: "fst (measureRange (snd (measureRange (Ranger_init quiet_world, quiet_world)))) = 0"
    by (simp add: measureRange_def sendTrigger_def prim_defs Let_def Ranger_init_def
        quiet_world_def)
  have f: "firstTime worker_locals" "m_count (Ranger_init quiet_world) = 0"
    "triggers quiet_world = 0"
    by (simp_all add: worker_locals_def Ranger_init_def triggers_def quiet_world_def)
  show ?thesis
    using double_failure_committed [OF h1 h2, of worker_locals] h1 h2 f
    by (auto split: prod.splits)
qed

section \<open>The PID controller: update\<close>

text \<open>
  C4. With the integrator limits in order, \<open>update\<close> returns the sum of the
  proportional term \<open>pGain * error\<close>, the integrator state after \<open>iGain * error\<close> was
  added to it and it was clamped to the limits, and the derivative term
  \<open>- dGain * (position - dState)\<close> on the previous position; afterwards \<open>dState\<close> is the
  position, the integrator state lies within the limits, and limits and gains are as
  before.
\<close>

theorem update_terms:
  assumes "m_iMin s \<le> m_iMax s"
  shows "case update error position s of (out, s') \<Rightarrow>
           m_iState s' = max (m_iMin s) (min (m_iMax s) (m_iState s + m_iGain s * error)) \<and>
           out = m_pGain s * error + m_iState s' + (- m_dGain s * (position - m_dState s)) \<and>
           m_dState s' = position \<and>
           m_iMin s \<le> m_iState s' \<and> m_iState s' \<le> m_iMax s \<and>
           m_iMin s' = m_iMin s \<and> m_iMax s' = m_iMax s \<and>
           m_pGain s' = m_pGain s \<and> m_iGain s' = m_iGain s \<and> m_dGain s' = m_dGain s"
  using assms by (simp add: update_def Let_def max_def min_def)

theorem update_terms_witness:
  "update 100 3 pid_example = (109, pid_example\<lparr>m_iState := 10, m_dState := 3\<rparr>)"
  using update_terms [of pid_example 100 3]
  by (simp add: update_def pid_example_def)

end
